theory Spec2Isabelle
  imports Complex_Main
begin

section \<open>The Structure class of astrodendro/components.py\<close>

text \<open>
  A \<^verbatim>\<open>Structure\<close> is a Python object; objects refer to each other (\<^verbatim>\<open>parent\<close>,
  \<^verbatim>\<open>children\<close>, \<^verbatim>\<open>_ancestor\<close>) and several methods write caches into them. The model is
  an explicit store: a heap maps an address to the attributes of the object that lives
  there, a reference is an address, and a method takes the heap and returns the new one.

  Pixel coordinates are tuples of grid indices, pixel values are Python floats, read here
  as real numbers.

  A call that raises an exception returns the exception (\<open>Inl\<close>) and not the heap: what
  the call had written before it raised is not kept. A call that never returns is the
  value \<open>None\<close>.
\<close>

type_synonym addr = nat
type_synonym coord = "int list"

text \<open>
  The \<^verbatim>\<open>values\<close> argument of the constructor is either one number
  (\<^verbatim>\<open>np.isscalar(values)\<close>) or a sequence of numbers. \<^verbatim>\<open>pixels\<close> is the argument pair
  \<^verbatim>\<open>(indices, values)\<close> in the two shapes the constructor's comments name: one
  coordinate with one value, or a sequence of coordinates with a sequence of values (the
  two sequences need not be equally long).
\<close>

datatype pyvalues = Scalar real | Values "real list"

datatype pixels = Single coord real | Sequence "coord list" "real list"

fun values_arg :: "pixels \<Rightarrow> pyvalues" where
  "values_arg (Single c v) = Scalar v"
| "values_arg (Sequence cs vs) = Values vs"

text \<open>
  The exceptions. \<^verbatim>\<open>AttributeError\<close> carries the name of the attribute that was read
  and is not there; \<^verbatim>\<open>RecursionError\<close> is Python's "maximum recursion depth exceeded"
  (a \<^verbatim>\<open>RuntimeError\<close> in Python 2).
  \<^verbatim>\<open>InvalidInput\<close> is the error kind of the specification: the class defines no such
  exception and no equation below returns it.
\<close>

datatype error =
    AttributeError string
  | ValueError
  | IndexError
  | TypeError
  | RecursionError
  | InvalidInput

text \<open>
  The attributes of one object. A name with a leading underscore in the source
  (\<^verbatim>\<open>_indices\<close>) is written with the prefix \<^verbatim>\<open>p_\<close> here.

  \<^item> \<^verbatim>\<open>parent\<close>, \<^verbatim>\<open>idx\<close>, \<^verbatim>\<open>_level\<close>, \<^verbatim>\<open>_ancestor\<close>, \<^verbatim>\<open>_descendants\<close> can hold Python's
    \<^verbatim>\<open>None\<close>: for them \<open>None\<close> is that value.
  \<^item> Every other optional field is an attribute that an object has only once some
    statement has assigned it: \<open>None\<close> says that the object has no such attribute, and
    reading it raises \<^verbatim>\<open>AttributeError\<close>. \<^verbatim>\<open>merge_level\<close>, \<^verbatim>\<open>_vmin\<close> and \<^verbatim>\<open>_vmin_sel\<close> are
    assigned on some paths of the constructor and \<^verbatim>\<open>_vmax\<close> on each path that returns;
    \<^verbatim>\<open>vmin\<close> and \<^verbatim>\<open>vmax\<close> are assigned only by \<^verbatim>\<open>_add_pixel\<close> and \<^verbatim>\<open>_merge\<close>; \<^verbatim>\<open>_npix_total\<close> and \<^verbatim>\<open>_peak\<close> only by
    \<^verbatim>\<open>get_npix\<close> and \<^verbatim>\<open>get_peak\<close>; \<^verbatim>\<open>f\<close> and \<^verbatim>\<open>children_structures\<close> are read by
    \<^verbatim>\<open>get_npix\<close> and \<^verbatim>\<open>get_peak\<close> and assigned nowhere in the class.
\<close>

record Structure =
  merge_level :: "pyvalues option"
  parent :: "addr option"
  children :: "addr list"
  p_indices :: "coord list"
  p_values :: "real list"
  p_vmin_sel :: "real option"
  p_vmin :: "real option"
  p_vmax :: "real option"
  idx :: "int option"
  p_level :: "int option"
  p_ancestor :: "addr option"
  p_descendants :: "addr list option"
  vmin :: "real option"
  vmax :: "real option"
  f :: "real list option"
  children_structures :: "addr list option"
  p_npix_total :: "int option"
  p_peak :: "(coord \<times> real) option"

type_synonym heap = "addr \<Rightarrow> Structure"

text \<open>
  The object that \<^verbatim>\<open>Structure(...)\<close> allocates before \<^verbatim>\<open>__init__\<close> runs on it: it has no
  attribute yet. (The fields that cannot say "absent" are overwritten by every run of
  the constructor that returns.)
\<close>

definition new_object :: Structure where
  "new_object =
     \<lparr> merge_level = None, parent = None, children = [], p_indices = [], p_values = [],
       p_vmin_sel = None, p_vmin = None, p_vmax = None, idx = None, p_level = None,
       p_ancestor = None, p_descendants = None, vmin = None, vmax = None, f = None,
       children_structures = None, p_npix_total = None, p_peak = None \<rparr>"

definition empty_heap :: heap where
  "empty_heap = (\<lambda>a. new_object)"

subsection \<open>The constructor\<close>

text \<open>
  \<^verbatim>\<open>for child in children: child.parent = self\<close>
\<close>

fun set_parents :: "addr \<Rightarrow> addr list \<Rightarrow> heap \<Rightarrow> heap" where
  "set_parents self [] h = h"
| "set_parents self (child # rest) h =
     set_parents self rest (h(child := (h child)\<lparr>parent := Some self\<rparr>))"

text \<open>
  Python's \<^verbatim>\<open>min\<close> and \<^verbatim>\<open>max\<close> of a sequence raise \<^verbatim>\<open>ValueError\<close> when it is empty.
\<close>

fun py_min :: "real list \<Rightarrow> error + real" where
  "py_min [] = Inl ValueError"
| "py_min (v # vs) = Inr (fold min vs v)"

fun py_max :: "real list \<Rightarrow> error + real" where
  "py_max [] = Inl ValueError"
| "py_max (v # vs) = Inr (fold max vs v)"

text \<open>
  The statements after the pixel data: \<^verbatim>\<open>self.idx = idx\<close> and the three caches set to
  \<^verbatim>\<open>None\<close>.
\<close>

definition init_caches :: "heap \<Rightarrow> addr \<Rightarrow> int option \<Rightarrow> heap" where
  "init_caches h self i =
     h(self := (h self)\<lparr>idx := i, p_level := None, p_ancestor := None, p_descendants := None\<rparr>)"

text \<open>
  \<^verbatim>\<open>Structure(indices, values, children, idx)\<close>: the new object is placed at \<open>self\<close> and
  \<^verbatim>\<open>__init__\<close> runs on it, statement by statement. A run that raises returns the
  exception only.
\<close>

definition init :: "heap \<Rightarrow> addr \<Rightarrow> pixels \<Rightarrow> addr list \<Rightarrow> int option \<Rightarrow> error + heap" where
  "init h self px chs i =
     (let h0 = h(self := new_object);
          h1 = (if chs \<noteq> [] then h0(self := (h0 self)\<lparr>merge_level := Some (values_arg px)\<rparr>)
                else h0);
          h2 = h1(self := (h1 self)\<lparr>parent := None\<rparr>);
          h3 = h2(self := (h2 self)\<lparr>children := chs\<rparr>);
          h4 = set_parents self chs h3
      in case px of
           Single c v \<Rightarrow>
             Inr (init_caches
                   (h4(self := (h4 self)\<lparr>p_indices := [c], p_values := [v],
                                          p_vmin_sel := Some v, p_vmax := Some v\<rparr>)) self i)
         | Sequence cs vs \<Rightarrow>
             (case py_min vs of
                Inl e \<Rightarrow> Inl e
              | Inr lo \<Rightarrow>
                 (case py_max vs of
                    Inl e \<Rightarrow> Inl e
                  | Inr hi \<Rightarrow>
                     Inr (init_caches
                           (h4(self := (h4 self)\<lparr>p_indices := cs, p_values := vs,
                                                  p_vmin := Some lo, p_vmax := Some hi\<rparr>)) self i))))"


fun own_values :: "pixels \<Rightarrow> real list" where
  "own_values (Single c v) = [v]"
| "own_values (Sequence cs vs) = vs"

subsection \<open>Own and full-subtree pixel data\<close>

definition indices_self :: "heap \<Rightarrow> addr \<Rightarrow> coord list" where
  "indices_self h self = p_indices (h self)"

definition values_self :: "heap \<Rightarrow> addr \<Rightarrow> real list" where
  "values_self h self = p_values (h self)"

text \<open>
  \<^verbatim>\<open>for child in self.children: acc += child.prop\<close>, where reading the property of a
  child may raise.
\<close>

fun gather :: "(addr \<Rightarrow> error + 'a list) \<Rightarrow> 'a list \<Rightarrow> addr list \<Rightarrow> error + 'a list" where
  "gather prop acc [] = Inr acc"
| "gather prop acc (child # rest) =
     (case prop child of Inl e \<Rightarrow> Inl e | Inr xs \<Rightarrow> gather prop (acc @ xs) rest)"

text \<open>
  The properties \<^verbatim>\<open>indices\<close> and \<^verbatim>\<open>values\<close> call themselves on other objects, and Python
  bounds the depth of nested calls: the first argument is the number of nested calls
  that are still allowed, and a call made when none is left raises \<^verbatim>\<open>RecursionError\<close>.

  \<^verbatim>\<open>indices\<close> returns \<^verbatim>\<open>self.indices_self + sub_indices\<close>. \<^verbatim>\<open>values\<close> returns
  \<^verbatim>\<open>self.values + sub_values\<close>: after its loop over the children it reads the property
  \<^verbatim>\<open>values\<close> of \<^verbatim>\<open>self\<close> again. (\<^verbatim>\<open>values\<close> is a keyword of Isabelle, so the property is
  named \<open>values_prop\<close>.)
\<close>

primrec indices :: "nat \<Rightarrow> heap \<Rightarrow> addr \<Rightarrow> error + coord list" where
  "indices 0 h self = Inl RecursionError"
| "indices (Suc d) h self =
     (case gather (indices d h) [] (children (h self)) of
        Inl e \<Rightarrow> Inl e
      | Inr sub_indices \<Rightarrow> Inr (indices_self h self @ sub_indices))"

primrec values_prop :: "nat \<Rightarrow> heap \<Rightarrow> addr \<Rightarrow> error + real list" where
  "values_prop 0 h self = Inl RecursionError"
| "values_prop (Suc d) h self =
     (case gather (values_prop d h) [] (children (h self)) of
        Inl e \<Rightarrow> Inl e
      | Inr sub_values \<Rightarrow>
         (case values_prop d h self of
            Inl e \<Rightarrow> Inl e
          | Inr own \<Rightarrow> Inr (own @ sub_values)))"

subsection \<open>Adding pixels\<close>

text \<open>
  \<^verbatim>\<open>_add_pixel(index, value)\<close> appends to the lists that \<^verbatim>\<open>self.indices\<close> and
  \<^verbatim>\<open>self.values\<close> return (new lists, made by \<^verbatim>\<open>+\<close>, so no attribute changes) and then
  assigns \<^verbatim>\<open>self.vmin, self.vmax = min(value, self.vmin), max(value, self.vmax)\<close>.
  \<^verbatim>\<open>_merge(structure)\<close> does the same with the \<^verbatim>\<open>indices\<close>, \<^verbatim>\<open>values\<close>, \<^verbatim>\<open>vmin\<close> and \<^verbatim>\<open>vmax\<close>
  of the other structure. These are the only assignments to \<^verbatim>\<open>vmin\<close> and \<^verbatim>\<open>vmax\<close> in
  the class. The first argument bounds the depth of the property calls.
\<close>

definition p_add_pixel :: "nat \<Rightarrow> heap \<Rightarrow> addr \<Rightarrow> coord \<Rightarrow> real \<Rightarrow> error + heap" where
  "p_add_pixel d h self index val =
     (case indices d h self of
        Inl e \<Rightarrow> Inl e
      | Inr own \<Rightarrow>
         (case values_prop d h self of
            Inl e \<Rightarrow> Inl e
          | Inr vs \<Rightarrow>
             (case vmin (h self) of
                None \<Rightarrow> Inl (AttributeError ''vmin'')
              | Some lo \<Rightarrow>
                 (case vmax (h self) of
                    None \<Rightarrow> Inl (AttributeError ''vmax'')
                  | Some hi \<Rightarrow>
                     Inr (h(self := (h self)\<lparr>vmin := Some (min val lo),
                                            vmax := Some (max val hi)\<rparr>))))))"

definition p_merge :: "nat \<Rightarrow> heap \<Rightarrow> addr \<Rightarrow> addr \<Rightarrow> error + heap" where
  "p_merge d h self other =
     (case indices d h self of
        Inl e \<Rightarrow> Inl e
      | Inr own \<Rightarrow>
         (case indices d h other of
            Inl e \<Rightarrow> Inl e
          | Inr extra \<Rightarrow>
             (case values_prop d h self of
                Inl e \<Rightarrow> Inl e
              | Inr vs \<Rightarrow>
                 (case values_prop d h other of
                    Inl e \<Rightarrow> Inl e
                  | Inr ws \<Rightarrow>
                     (case vmin (h other) of
                        None \<Rightarrow> Inl (AttributeError ''vmin'')
                      | Some lo' \<Rightarrow>
                         (case vmin (h self) of
                            None \<Rightarrow> Inl (AttributeError ''vmin'')
                          | Some lo \<Rightarrow>
                             (case vmax (h other) of
                                None \<Rightarrow> Inl (AttributeError ''vmax'')
                              | Some hi' \<Rightarrow>
                                 (case vmax (h self) of
                                    None \<Rightarrow> Inl (AttributeError ''vmax'')
                                  | Some hi \<Rightarrow>
                                     Inr (h(self := (h self)\<lparr>vmin := Some (min lo' lo),
                                                            vmax := Some (max hi' hi)\<rparr>))))))))))"

subsection \<open>Height\<close>

text \<open>
  \<^verbatim>\<open>self.vmax - self.vmin\<close> for a root, \<^verbatim>\<open>self.vmax - self.parent.merge_level\<close> otherwise.
  The attributes read are \<^verbatim>\<open>vmax\<close> and \<^verbatim>\<open>vmin\<close>, not the \<^verbatim>\<open>_vmax\<close> and \<^verbatim>\<open>_vmin\<close> that the
  constructor assigns. A number minus a list of numbers is a \<^verbatim>\<open>TypeError\<close>.
\<close>

definition height :: "heap \<Rightarrow> addr \<Rightarrow> error + real" where
  "height h self =
     (case parent (h self) of
        None \<Rightarrow>
          (case vmax (h self) of
             None \<Rightarrow> Inl (AttributeError ''vmax'')
           | Some hi \<Rightarrow>
              (case vmin (h self) of
                 None \<Rightarrow> Inl (AttributeError ''vmin'')
               | Some lo \<Rightarrow> Inr (hi - lo)))
      | Some p \<Rightarrow>
          (case vmax (h self) of
             None \<Rightarrow> Inl (AttributeError ''vmax'')
           | Some hi \<Rightarrow>
              (case merge_level (h p) of
                 None \<Rightarrow> Inl (AttributeError ''merge_level'')
               | Some (Scalar m) \<Rightarrow> Inr (hi - m)
               | Some (Values ms) \<Rightarrow> Inl TypeError)))"

subsection \<open>Ancestor\<close>

text \<open>
  The loop of \<^verbatim>\<open>ancestor\<close>:
  \<^verbatim>\<open>while self._ancestor.parent: a = self._ancestor; if a._ancestor: self._ancestor = a._ancestor
  else: self._ancestor = a.parent\<close>.
  A \<^verbatim>\<open>Structure\<close> defines neither \<^verbatim>\<open>__bool__\<close> nor \<^verbatim>\<open>__len__\<close>, so a reference is true
  exactly when it is not \<^verbatim>\<open>None\<close>. The loop writes \<^verbatim>\<open>self._ancestor\<close> and nothing else. It
  may run forever (on a cycle of \<^verbatim>\<open>parent\<close> links, say): not returning is the value
  \<open>None\<close>. On exit it gives the value of \<^verbatim>\<open>self._ancestor\<close>, which the method returns.
\<close>

partial_function (option) ancestor_loop :: "heap \<Rightarrow> addr \<Rightarrow> (error + addr \<times> heap) option" where
  "ancestor_loop h self =
     (case p_ancestor (h self) of
        None \<Rightarrow> Some (Inl (AttributeError ''parent''))
      | Some a \<Rightarrow>
         (case parent (h a) of
            None \<Rightarrow> Some (Inr (a, h))
          | Some p \<Rightarrow>
             (case p_ancestor (h a) of
                Some a' \<Rightarrow> ancestor_loop (h(self := (h self)\<lparr>p_ancestor := Some a'\<rparr>)) self
              | None \<Rightarrow> ancestor_loop (h(self := (h self)\<lparr>p_ancestor := Some p\<rparr>)) self)))"

definition ancestor :: "heap \<Rightarrow> addr \<Rightarrow> (error + addr \<times> heap) option" where
  "ancestor h self =
     (case parent (h self) of
        None \<Rightarrow> Some (Inr (self, h))
      | Some p \<Rightarrow>
         ancestor_loop
           (case p_ancestor (h self) of
              None \<Rightarrow> h(self := (h self)\<lparr>p_ancestor := Some p\<rparr>)
            | Some a \<Rightarrow> h)
           self)"

subsection \<open>Level\<close>

text \<open>
  The loop of \<^verbatim>\<open>level\<close>: \<^verbatim>\<open>while obj._level is None: obj = obj.parent; diff += 1\<close>. The
  variable \<^verbatim>\<open>obj\<close> becomes \<^verbatim>\<open>None\<close> when the walk passes a root, and the next test of the
  loop then raises \<^verbatim>\<open>AttributeError\<close>. On exit the loop gives \<^verbatim>\<open>obj._level\<close> and \<^verbatim>\<open>diff\<close>.
\<close>

partial_function (option) level_loop :: "heap \<Rightarrow> addr option \<Rightarrow> int \<Rightarrow> (error + int \<times> int) option" where
  "level_loop h obj diff =
     (case obj of
        None \<Rightarrow> Some (Inl (AttributeError ''_level''))
      | Some ob \<Rightarrow>
         (case p_level (h ob) of
            Some l \<Rightarrow> Some (Inr (l, diff))
          | None \<Rightarrow> level_loop h (parent (h ob)) (diff + 1)))"

text \<open>
  The property \<^verbatim>\<open>level\<close>. In its last branch it assigns \<^verbatim>\<open>self._level\<close>, then
  \<^verbatim>\<open>self.parent._level = self._level - 1\<close>, and returns \<^verbatim>\<open>self._level\<close> as it then is.
\<close>

definition level :: "heap \<Rightarrow> addr \<Rightarrow> (error + int \<times> heap) option" where
  "level h self =
     (case p_level (h self) of
        Some l \<Rightarrow> Some (Inr (l, h))
      | None \<Rightarrow>
         (case parent (h self) of
            None \<Rightarrow> Some (Inr (0, h(self := (h self)\<lparr>p_level := Some 0\<rparr>)))
          | Some p \<Rightarrow>
             (case p_level (h p) of
                Some pl \<Rightarrow> Some (Inr (pl + 1, h(self := (h self)\<lparr>p_level := Some (pl + 1)\<rparr>)))
              | None \<Rightarrow>
                 (case level_loop h (Some p) 1 of
                    None \<Rightarrow> None
                  | Some (Inl e) \<Rightarrow> Some (Inl e)
                  | Some (Inr (l, diff)) \<Rightarrow>
                     (let h1 = h(self := (h self)\<lparr>p_level := Some (l + diff)\<rparr>);
                          h2 = h1(p := (h1 p)\<lparr>p_level := Some (l + diff - 1)\<rparr>)
                      in Some (Inr (if p = self then l + diff - 1 else l + diff, h2)))))))"

subsection \<open>Footprint\<close>

text \<open>
  The array is written in place; it is indexed by coordinates and holds levels. (The
  bounds of the array are not modelled: every coordinate is an entry.)
\<close>

type_synonym array = "coord \<Rightarrow> int"

text \<open>
  \<^verbatim>\<open>for index in self.indices: array[index] = self.level\<close>, over the list of indices that
  \<^verbatim>\<open>self.indices\<close> returned.
\<close>

fun stamp :: "heap \<Rightarrow> array \<Rightarrow> addr \<Rightarrow> coord list \<Rightarrow> (error + heap \<times> array) option" where
  "stamp h arr self [] = Some (Inr (h, arr))"
| "stamp h arr self (index # rest) =
     (case level h self of
        None \<Rightarrow> None
      | Some (Inl e) \<Rightarrow> Some (Inl e)
      | Some (Inr (l, h')) \<Rightarrow> stamp h' (arr(index := l)) self rest)"

text \<open>
  \<^verbatim>\<open>for child in self.children: child.fill_footprint(array)\<close>
\<close>

fun each_child ::
  "(heap \<Rightarrow> array \<Rightarrow> addr \<Rightarrow> (error + heap \<times> array) option) \<Rightarrow> heap \<Rightarrow> array \<Rightarrow> addr list
     \<Rightarrow> (error + heap \<times> array) option" where
  "each_child fill h arr [] = Some (Inr (h, arr))"
| "each_child fill h arr (child # rest) =
     (case fill h arr child of
        None \<Rightarrow> None
      | Some (Inl e) \<Rightarrow> Some (Inl e)
      | Some (Inr (h', arr')) \<Rightarrow> each_child fill h' arr' rest)"

text \<open>
  \<^verbatim>\<open>fill_footprint(array, recursive)\<close>, again with the number of nested calls that are
  still allowed. The second loop runs over \<^verbatim>\<open>self.indices\<close>, the property of the full
  subtree.
\<close>

primrec fill_footprint ::
  "nat \<Rightarrow> heap \<Rightarrow> array \<Rightarrow> addr \<Rightarrow> bool \<Rightarrow> (error + heap \<times> array) option" where
  "fill_footprint 0 h arr self recursive = Some (Inl RecursionError)"
| "fill_footprint (Suc d) h arr self recursive =
     (case (if recursive
            then each_child (\<lambda>h' arr' child. fill_footprint d h' arr' child True) h arr
                   (children (h self))
            else Some (Inr (h, arr))) of
        None \<Rightarrow> None
      | Some (Inl e) \<Rightarrow> Some (Inl e)
      | Some (Inr (h1, arr1)) \<Rightarrow>
         (case indices d h1 self of
            Inl e \<Rightarrow> Some (Inl e)
          | Inr own \<Rightarrow> stamp h1 arr1 self own))"

subsection \<open>Pixel count and peak\<close>

text \<open>
  \<^verbatim>\<open>sum([len(node.values) for node in nodes])\<close>
\<close>

fun count_values :: "(addr \<Rightarrow> error + real list) \<Rightarrow> addr list \<Rightarrow> error + int" where
  "count_values prop [] = Inr 0"
| "count_values prop (node # rest) =
     (case prop node of
        Inl e \<Rightarrow> Inl e
      | Inr vs \<Rightarrow>
         (case count_values prop rest of
            Inl e \<Rightarrow> Inl e
          | Inr n \<Rightarrow> Inr (int (length vs) + n)))"

text \<open>
  \<^verbatim>\<open>get_npix(subtree)\<close>: without \<^verbatim>\<open>subtree\<close> it returns \<^verbatim>\<open>len(self.f)\<close>; with it, the cached
  \<^verbatim>\<open>_npix_total\<close>, computed on the first call from \<^verbatim>\<open>self.values\<close> and from the \<^verbatim>\<open>values\<close> of
  every node of \<^verbatim>\<open>self.children_structures\<close>. The first argument bounds the depth of the
  property calls it makes.
\<close>

definition get_npix :: "nat \<Rightarrow> heap \<Rightarrow> addr \<Rightarrow> bool \<Rightarrow> error + int \<times> heap" where
  "get_npix d h self subtree =
     (if \<not> subtree
      then (case f (h self) of
              None \<Rightarrow> Inl (AttributeError ''f'')
            | Some fl \<Rightarrow> Inr (int (length fl), h))
      else (case p_npix_total (h self) of
              Some n \<Rightarrow> Inr (n, h)
            | None \<Rightarrow>
               (case values_prop d h self of
                  Inl e \<Rightarrow> Inl e
                | Inr vs \<Rightarrow>
                   (case children_structures (h self) of
                      None \<Rightarrow> Inl (AttributeError ''children_structures'')
                    | Some nodes \<Rightarrow>
                       (case count_values (values_prop d h) nodes of
                          Inl e \<Rightarrow> Inl e
                        | Inr n \<Rightarrow>
                           Inr (int (length vs) + n,
                                h(self := (h self)\<lparr>p_npix_total := Some (int (length vs) + n)\<rparr>)))))))"

text \<open>
  \<^verbatim>\<open>list.index(x)\<close> is the position of the first element equal to \<^verbatim>\<open>x\<close> and raises
  \<^verbatim>\<open>ValueError\<close> when there is none; \<^verbatim>\<open>xs[k]\<close> raises \<^verbatim>\<open>IndexError\<close> out of range.
\<close>

fun py_index :: "real list \<Rightarrow> real \<Rightarrow> error + nat" where
  "py_index [] x = Inl ValueError"
| "py_index (v # vs) x =
     (if v = x then Inr 0
      else (case py_index vs x of Inl e \<Rightarrow> Inl e | Inr k \<Rightarrow> Inr (Suc k)))"

definition py_nth :: "'a list \<Rightarrow> nat \<Rightarrow> error + 'a" where
  "py_nth xs k = (if k < length xs then Inr (xs ! k) else Inl IndexError)"

text \<open>
  The first statement of \<^verbatim>\<open>get_peak\<close>: when the object has no \<^verbatim>\<open>_peak\<close> yet,
  \<^verbatim>\<open>self._peak = (self.indices[self.values.index(self.vmax)], self.vmax)\<close>. Python
  evaluates \<^verbatim>\<open>self.indices\<close>, then \<^verbatim>\<open>self.values\<close>, then \<^verbatim>\<open>self.vmax\<close>. The result is the
  value of \<^verbatim>\<open>self._peak\<close> after the statement. The first argument bounds the depth of
  the property calls.
\<close>

definition local_peak :: "nat \<Rightarrow> heap \<Rightarrow> addr \<Rightarrow> error + (coord \<times> real) \<times> heap" where
  "local_peak d h self =
     (case p_peak (h self) of
        Some pk \<Rightarrow> Inr (pk, h)
      | None \<Rightarrow>
         (case indices d h self of
            Inl e \<Rightarrow> Inl e
          | Inr own \<Rightarrow>
             (case values_prop d h self of
                Inl e \<Rightarrow> Inl e
              | Inr vs \<Rightarrow>
                 (case vmax (h self) of
                    None \<Rightarrow> Inl (AttributeError ''vmax'')
                  | Some hi \<Rightarrow>
                     (case py_index vs hi of
                        Inl e \<Rightarrow> Inl e
                      | Inr k \<Rightarrow>
                         (case py_nth own k of
                            Inl e \<Rightarrow> Inl e
                          | Inr c \<Rightarrow>
                             Inr ((c, hi), h(self := (h self)\<lparr>p_peak := Some (c, hi)\<rparr>))))))))"

text \<open>
  \<^verbatim>\<open>for node in self.children_structures: if found[1] < node.vmax: found = node.get_peak()\<close>
\<close>

fun peak_loop ::
  "(heap \<Rightarrow> addr \<Rightarrow> error + (coord \<times> real) \<times> heap) \<Rightarrow> heap \<Rightarrow> coord \<times> real \<Rightarrow> addr list
     \<Rightarrow> error + (coord \<times> real) \<times> heap" where
  "peak_loop peak h found [] = Inr (found, h)"
| "peak_loop peak h found (node # rest) =
     (case vmax (h node) of
        None \<Rightarrow> Inl (AttributeError ''vmax'')
      | Some hi \<Rightarrow>
         (if snd found < hi
          then (case peak h node of
                  Inl e \<Rightarrow> Inl e
                | Inr (pk, h') \<Rightarrow> peak_loop peak h' pk rest)
          else peak_loop peak h found rest))"

text \<open>
  \<^verbatim>\<open>get_peak(subtree)\<close>: the local peak, or with \<^verbatim>\<open>subtree\<close> the result of the loop over
  \<^verbatim>\<open>self.children_structures\<close>, started with the local peak. It calls itself on other
  nodes, so it takes the number of nested calls that are still allowed.
\<close>

primrec get_peak :: "nat \<Rightarrow> heap \<Rightarrow> addr \<Rightarrow> bool \<Rightarrow> error + (coord \<times> real) \<times> heap" where
  "get_peak 0 h self subtree = Inl RecursionError"
| "get_peak (Suc d) h self subtree =
     (case local_peak d h self of
        Inl e \<Rightarrow> Inl e
      | Inr (pk, h1) \<Rightarrow>
         (if \<not> subtree then Inr (pk, h1)
          else (case children_structures (h1 self) of
                  None \<Rightarrow> Inl (AttributeError ''children_structures'')
                | Some nodes \<Rightarrow>
                   peak_loop (\<lambda>h' node. get_peak d h' node False) h1 pk nodes)))"

section \<open>Well-formed heaps\<close>

text \<open>
  \<open>parent_rel h\<close> holds the pairs (parent, child) of the \<^verbatim>\<open>parent\<close> links. The links form
  a forest when finitely many objects have a parent and no object is its own ancestor.
\<close>

definition parent_rel :: "heap \<Rightarrow> (addr \<times> addr) set" where
  "parent_rel h = {(p, n). parent (h n) = Some p}"

definition forest :: "heap \<Rightarrow> bool" where
  "forest h \<longleftrightarrow> finite {n. parent (h n) \<noteq> None} \<and> acyclic (parent_rel h)"

text \<open>
  \<^verbatim>\<open>_ancestor\<close> is \<^verbatim>\<open>None\<close> after the constructor and is assigned by \<^verbatim>\<open>ancestor\<close> only, which
  stores objects it has reached from \<^verbatim>\<open>self\<close> along \<^verbatim>\<open>parent\<close> links. With the documented
  assumption that a parent, once given, never changes, a cached ancestor is therefore a
  proper ancestor of the object that holds it.
\<close>

definition cache_valid :: "heap \<Rightarrow> bool" where
  "cache_valid h \<longleftrightarrow> (\<forall>n a. p_ancestor (h n) = Some a \<longrightarrow> (a, n) \<in> (parent_rel h)\<^sup>+)"

text \<open>
  \<open>at_depth h n k\<close>: \<open>k\<close> \<^verbatim>\<open>parent\<close> links lead from \<open>n\<close> to a root. A root is at depth 0
  and a child one deeper than its parent, which is what the level of a node is to be.
\<close>

fun at_depth :: "heap \<Rightarrow> addr \<Rightarrow> nat \<Rightarrow> bool" where
  "at_depth h n 0 = (parent (h n) = None)"
| "at_depth h n (Suc k) = (case parent (h n) of None \<Rightarrow> False | Some p \<Rightarrow> at_depth h p k)"

text \<open>Every cached level is the depth of the node that holds it.\<close>

definition levels_consistent :: "heap \<Rightarrow> bool" where
  "levels_consistent h \<longleftrightarrow> (\<forall>n l k. p_level (h n) = Some l \<longrightarrow> at_depth h n k \<longrightarrow> l = int k)"

text \<open>
  \<open>resolvable h n k\<close>: \<open>n\<close> or one of the first \<open>k\<close> objects above it has a cached level.
\<close>

fun resolvable :: "heap \<Rightarrow> addr \<Rightarrow> nat \<Rightarrow> bool" where
  "resolvable h n 0 = (p_level (h n) \<noteq> None)"
| "resolvable h n (Suc k) =
     (p_level (h n) \<noteq> None
      \<or> (case parent (h n) of None \<Rightarrow> False | Some p \<Rightarrow> resolvable h p k))"

text \<open>
  The heap that a \<^verbatim>\<open>level\<close> query on \<open>n\<close>, of depth \<open>k\<close>, leaves: the level of \<open>n\<close> is
  cached, and so is that of its parent when \<open>n\<close> had none cached.
\<close>

definition level_cached :: "heap \<Rightarrow> addr \<Rightarrow> nat \<Rightarrow> heap" where
  "level_cached h n k =
     (\<lambda>m. (h m)\<lparr>p_level :=
               if m = n then Some (int k)
               else if p_level (h n) = None \<and> parent (h n) = Some m then Some (int k - 1)
               else p_level (h m)\<rparr>)"

section \<open>Two trees built by the constructor\<close>

definition then_init ::
  "error + heap \<Rightarrow> addr \<Rightarrow> pixels \<Rightarrow> addr list \<Rightarrow> int option \<Rightarrow> error + heap" where
  "then_init r self px chs i = (case r of Inl e \<Rightarrow> Inl e | Inr h \<Rightarrow> init h self px chs i)"

text \<open>
  An object as the constructor leaves it when called with one pixel: a leaf, and a branch
  over the children \<open>chs\<close>. The last argument is the parent that a later constructor call
  has given it.
\<close>

definition leaf_at :: "coord \<Rightarrow> real \<Rightarrow> int \<Rightarrow> addr option \<Rightarrow> Structure" where
  "leaf_at c v i p =
     new_object\<lparr>parent := p, p_indices := [c], p_values := [v], p_vmin_sel := Some v,
                p_vmax := Some v, idx := Some i\<rparr>"

definition branch_at :: "coord \<Rightarrow> real \<Rightarrow> addr list \<Rightarrow> int \<Rightarrow> addr option \<Rightarrow> Structure" where
  "branch_at c v chs i p = (leaf_at c v i p)\<lparr>merge_level := Some (Scalar v), children := chs\<rparr>"

text \<open>
  The scenario of the specification: leaves \<^verbatim>\<open>L1 = Structure((0,0), 5.0, idx=0)\<close> and
  \<^verbatim>\<open>L2 = Structure((1,1), 3.0, idx=1)\<close> at addresses 0 and 1, merged by
  \<^verbatim>\<open>B = Structure((0,1), 2.0, children=[L1, L2], idx=2)\<close> at address 2.
\<close>

definition merged :: heap where
  "merged = empty_heap(0 := leaf_at [0, 0] 5 0 (Some 2), 1 := leaf_at [1, 1] 3 1 (Some 2),
                       2 := branch_at [0, 1] 2 [0, 1] 2 None)"

text \<open>\<open>merged\<close> after \<^verbatim>\<open>B.level\<close> has been read, and after \<^verbatim>\<open>B.fill_footprint(array)\<close>.\<close>

definition merged_rooted :: heap where
  "merged_rooted = merged(2 := (merged 2)\<lparr>p_level := Some 0\<rparr>)"

definition merged_stamped :: heap where
  "merged_stamped =
     merged_rooted(0 := (merged_rooted 0)\<lparr>p_level := Some 1\<rparr>,
                   1 := (merged_rooted 1)\<lparr>p_level := Some 1\<rparr>)"

text \<open>
  A chain of single children: the leaf \<^verbatim>\<open>C\<close> at address 0, then \<^verbatim>\<open>B\<close> over \<^verbatim>\<open>C\<close> at 1,
  \<^verbatim>\<open>A\<close> over \<^verbatim>\<open>B\<close> at 2 and the root over \<^verbatim>\<open>A\<close> at 3, each made by one constructor call.
\<close>

definition chain :: heap where
  "chain = empty_heap(0 := leaf_at [0, 0] 4 0 (Some 1), 1 := branch_at [0, 1] 3 [0] 1 (Some 2),
                      2 := branch_at [0, 2] 2 [1] 2 (Some 3), 3 := branch_at [0, 3] 1 [2] 3 None)"

text \<open>
  \<open>chain\<close> after the root's \<^verbatim>\<open>level\<close> has been read; then after \<^verbatim>\<open>C.level\<close>; and \<open>chain\<close>
  after \<^verbatim>\<open>C.ancestor\<close>.
\<close>

definition chain_rooted :: heap where
  "chain_rooted = chain(3 := (chain 3)\<lparr>p_level := Some 0\<rparr>)"

definition chain_levelled :: heap where
  "chain_levelled =
     chain_rooted(0 := (chain_rooted 0)\<lparr>p_level := Some 3\<rparr>,
                  1 := (chain_rooted 1)\<lparr>p_level := Some 2\<rparr>)"

definition chain_compressed :: heap where
  "chain_compressed = chain(0 := (chain 0)\<lparr>p_ancestor := Some 3\<rparr>)"

text \<open>
  The two leaves alone, and a branch made over them with a sequence of two pixels:
  \<^verbatim>\<open>Structure([(0,1), (1,0)], [2.0, 1.0], children=[L1, L2], idx=2)\<close>.
\<close>

definition two_leaves :: heap where
  "two_leaves = empty_heap(0 := leaf_at [0, 0] 5 0 None, 1 := leaf_at [1, 1] 3 1 None)"


section \<open>Properties of the constructor\<close>

lemmas scenario_defs =
  merged_def chain_def two_leaves_def leaf_at_def branch_at_def new_object_def empty_heap_def


lemma set_parents_parent:
  "parent (set_parents self chs h x) = (if x \<in> set chs then Some self else parent (h x))"
  by (induction chs arbitrary: h) auto

lemma py_min_Inl: "(py_min vs = Inl e) = (vs = [] \<and> e = ValueError)"
  by (cases vs) auto

lemma py_max_Inl: "(py_max vs = Inl e) = (vs = [] \<and> e = ValueError)"
  by (cases vs) auto

text \<open>The scenario heaps are what the constructor calls produce.\<close>

lemma two_leaves_built:
  "then_init (init empty_heap 0 (Single [0, 0] 5) [] (Some 0)) 1 (Single [1, 1] 3) [] (Some 1)
   = Inr two_leaves"
  by (simp add: then_init_def init_def init_caches_def Let_def scenario_defs fun_upd_twist)

lemma merged_built: "init two_leaves 2 (Single [0, 1] 2) [0, 1] (Some 2) = Inr merged"
  by (simp add: init_def init_caches_def Let_def scenario_defs fun_upd_twist)


lemma chain_built:
  "then_init (then_init (then_init (init empty_heap 0 (Single [0, 0] 4) [] (Some 0))
                1 (Single [0, 1] 3) [0] (Some 1)) 2 (Single [0, 2] 2) [1] (Some 2))
      3 (Single [0, 3] 1) [2] (Some 3) = Inr chain"
  by (simp add: then_init_def init_def init_caches_def Let_def scenario_defs fun_upd_twist)



text \<open>
  C2, as the code has it. A constructor call with an empty sequence of values fails, with
  Python's \<^verbatim>\<open>ValueError\<close> (from \<^verbatim>\<open>min\<close> of the empty sequence); no call fails with
  \<^verbatim>\<open>InvalidInput\<close>; and a call with no children does not fail for that: given at least
  one value it returns a leaf, an object with no children and no \<^verbatim>\<open>merge_level\<close>.
\<close>

theorem init_errors:
  "init h self (Sequence cs []) chs i = Inl ValueError
   \<and> init h self px chs i \<noteq> Inl InvalidInput
   \<and> (own_values px \<noteq> [] \<longrightarrow>
        (\<exists>h'. init h self px [] i = Inr h' \<and> children (h' self) = [] \<and> merge_level (h' self) = None))"
  by (cases px)
     (auto simp: init_def Let_def init_caches_def new_object_def py_min_Inl py_max_Inl
           split: sum.splits)

theorem init_errors_witness:
  "own_values (Single [0, 0] 5) \<noteq> []
   \<and> (\<exists>h'. init empty_heap 0 (Single [0, 0] 5) [] (Some 0) = Inr h'
          \<and> children (h' 0) = [] \<and> merge_level (h' 0) = None)"
  using init_errors[of empty_heap 0 "[]" "[]" "Some 0" "Single [0, 0] 5"] by simp

text \<open>
  C2 as stated fails: the empty sequence of values raises \<^verbatim>\<open>ValueError\<close>, which is not
  \<^verbatim>\<open>InvalidInput\<close>, and the empty sequence of children is accepted.
\<close>

theorem init_empty_inputs_counterexample:
  "init empty_heap 0 (Sequence [] []) [] None = Inl ValueError
   \<and> ValueError \<noteq> InvalidInput
   \<and> init empty_heap 0 (Single [0, 0] 5) [] (Some 0) = Inr (empty_heap(0 := leaf_at [0, 0] 5 0 None))"
  by (simp add: init_def init_caches_def Let_def scenario_defs)

section \<open>The full-subtree properties\<close>

lemma gather_all_fail:
  assumes "\<And>c. prop c = Inl E"
  shows "gather prop acc cs = Inl e \<Longrightarrow> e = E"
  using assms by (cases cs) (auto split: sum.splits)

lemma gather_Inr:
  "(gather prop acc cs = Inr r) =
   ((\<forall>c \<in> set cs. \<exists>xs. prop c = Inr xs) \<and> r = acc @ concat (map (\<lambda>c. projr (prop c)) cs))"
proof (induction cs arbitrary: acc)
  case Nil
  show ?case by auto
next
  case (Cons c cs)
  show ?case
  proof (cases "prop c")
    case (Inl e)
    then show ?thesis by auto
  next
    case (Inr xs)
    then show ?thesis using Cons[of "acc @ xs"] by auto
  qed
qed

text \<open>
  \<^verbatim>\<open>indices\<close> does what C1 says: where the children's calls return, the result is
  \<^verbatim>\<open>indices_self\<close> followed by the children's results in order.
\<close>

lemma indices_unfold:
  assumes "\<forall>c \<in> set (children (h self)). \<exists>xs. indices d h c = Inr xs"
  shows "indices (Suc d) h self =
         Inr (indices_self h self @ concat (map (\<lambda>c. projr (indices d h c)) (children (h self))))"
proof -
  have "gather (indices d h) [] (children (h self)) =
        Inr (concat (map (\<lambda>c. projr (indices d h c)) (children (h self))))"
    using assms by (simp add: gather_Inr)
  then show ?thesis by simp
qed

lemma values_prop_raises: "values_prop d h self = Inl RecursionError"
proof (induction d arbitrary: self)
  case 0
  show ?case by simp
next
  case (Suc d)
  show ?case
  proof (cases "gather (values_prop d h) [] (children (h self))")
    case (Inl e)
    then have "e = RecursionError"
      using gather_all_fail[of "values_prop d h" RecursionError] Suc by blast
    with Inl show ?thesis by simp
  next
    case (Inr sub)
    then show ?thesis using Suc[of self] by simp
  qed
qed

lemma gather_Inl: "gather prop acc cs = Inl e \<Longrightarrow> \<exists>c \<in> set cs. prop c = Inl e"
  by (induction cs arbitrary: acc) (auto split: sum.splits)

lemma indices_error: "indices d h self = Inl e \<Longrightarrow> e = RecursionError"
proof (induction d arbitrary: self)
  case 0
  then show ?case by simp
next
  case (Suc d)
  then show ?case by (auto split: sum.splits dest!: gather_Inl)
qed

text \<open>In the scenario, \<^verbatim>\<open>B.indices\<close> is the pixel of \<^verbatim>\<open>B\<close>, then those of the leaves.\<close>

lemma indices_merged: "indices (Suc (Suc d)) merged 2 = Inr [[0, 1], [0, 0], [1, 1]]"
  by (simp add: indices_self_def scenario_defs)

text \<open>
  \<^verbatim>\<open>_add_pixel\<close> and \<^verbatim>\<open>_merge\<close> read \<^verbatim>\<open>self.values\<close> before they assign anything, so they
  never assign: no call of the class gives an object the attributes \<^verbatim>\<open>vmin\<close> and \<^verbatim>\<open>vmax\<close>.
\<close>

lemma p_add_pixel_raises: "p_add_pixel d h self index val = Inl RecursionError"
  by (auto simp: p_add_pixel_def values_prop_raises split: sum.splits dest: indices_error)

lemma p_merge_raises: "p_merge d h self other = Inl RecursionError"
  by (auto simp: p_merge_def values_prop_raises split: sum.splits dest: indices_error)

text \<open>
  C1 fails on \<^verbatim>\<open>values\<close>: the property reads itself (\<^verbatim>\<open>self.values + sub_values\<close>, where
  \<^verbatim>\<open>indices\<close> reads \<^verbatim>\<open>self.indices_self\<close>), so on every object, with any bound on the depth
  of calls, it ends in \<^verbatim>\<open>RecursionError\<close> and returns no list.
\<close>

theorem values_prop_never_returns: "values_prop d h self = Inl RecursionError"
  by (rule values_prop_raises)

section \<open>Height and pixel count\<close>

text \<open>
  C7 fails: \<^verbatim>\<open>height\<close> reads \<^verbatim>\<open>self.vmax\<close>, an attribute that no constructed object has
  (the constructor assigns \<^verbatim>\<open>_vmax\<close>). For the leaf \<^verbatim>\<open>L1\<close> of the scenario the claim gives
  5.0 - 2.0; the property raises \<^verbatim>\<open>AttributeError\<close>.
\<close>

theorem height_raises: "height merged 0 = Inl (AttributeError ''vmax'')"
  by (simp add: height_def scenario_defs)

text \<open>
  C5 fails: \<^verbatim>\<open>get_npix()\<close> reads \<^verbatim>\<open>self.f\<close>, which no object has, and
  \<^verbatim>\<open>get_npix(subtree=True)\<close> reads \<^verbatim>\<open>self.values\<close>, which never returns. On the branch
  \<^verbatim>\<open>B\<close> of the scenario the claim gives 1 and 3.
\<close>

theorem get_npix_raises:
  "get_npix d merged 2 False = Inl (AttributeError ''f'')
   \<and> get_npix d merged 2 True = Inl RecursionError"
  by (simp add: get_npix_def values_prop_raises scenario_defs)

section \<open>Ancestor\<close>

lemma parent_rel_cache [simp]:
  "parent_rel (h(x := (h x)\<lparr>p_ancestor := c\<rparr>)) = parent_rel h"
  by (auto simp: parent_rel_def)

lemma parent_cache_upd: "parent ((h(x := (h x)\<lparr>p_ancestor := c\<rparr>)) n) = parent (h n)"
  by simp

lemma forest_wf: "forest h \<Longrightarrow> wf (parent_rel h)"
proof -
  assume fo: "forest h"
  have "parent_rel h = (\<lambda>n. (the (parent (h n)), n)) ` {n. parent (h n) \<noteq> None}"
    by (auto simp: parent_rel_def image_iff)
  then have "finite (parent_rel h)" using fo by (simp add: forest_def)
  then show ?thesis using fo by (simp add: forest_def finite_acyclic_wf)
qed

lemma cache_same [simp]:
  "p_ancestor (h x) = Some a \<Longrightarrow> h(x := (h x)\<lparr>p_ancestor := Some a\<rparr>) = h"
  by (rule ext) simp

text \<open>
  The loop, started with a proper ancestor \<open>a\<close> of \<open>self\<close> in \<^verbatim>\<open>self._ancestor\<close>: each turn
  replaces it by an object strictly higher up, so the loop ends, at a root above
  \<open>self\<close>, and all it has changed is \<^verbatim>\<open>self._ancestor\<close>.
\<close>

lemma ancestor_loop_result:
  assumes "wf R"
  shows "parent_rel h = R \<Longrightarrow> cache_valid h \<Longrightarrow> p_ancestor (h self) = Some a
     \<Longrightarrow> (a, self) \<in> R\<^sup>+
     \<Longrightarrow> \<exists>r. ancestor_loop h self = Some (Inr (r, h(self := (h self)\<lparr>p_ancestor := Some r\<rparr>)))
            \<and> parent (h r) = None \<and> (r, self) \<in> R\<^sup>+"
proof (induction a arbitrary: h rule: wf_induct_rule[OF wf_trancl[OF assms]])
  case (1 a)
  show ?case
  proof (cases "parent (h a)")
    case None
    then show ?thesis using 1(4,5) by (subst ancestor_loop.simps) simp
  next
    case (Some p)
    define b where "b = (case p_ancestor (h a) of Some a' \<Rightarrow> a' | None \<Rightarrow> p)"
    define h' where "h' = h(self := (h self)\<lparr>p_ancestor := Some b\<rparr>)"
    have step: "ancestor_loop h self = ancestor_loop h' self"
      using 1(4) Some by (subst ancestor_loop.simps) (simp add: b_def h'_def split: option.splits)
    have up: "(b, a) \<in> R\<^sup>+"
    proof (cases "p_ancestor (h a)")
      case None
      then have "b = p" by (simp add: b_def)
      moreover have "(p, a) \<in> R" using Some 1(2) by (auto simp: parent_rel_def)
      ultimately show ?thesis by auto
    next
      case (Some a')
      then show ?thesis using 1(2,3) by (auto simp: b_def cache_valid_def)
    qed
    then have bs: "(b, self) \<in> R\<^sup>+" using 1(5) by (rule trancl_trans)
    have rel': "parent_rel h' = R" using 1(2) by (simp add: h'_def)
    have cv': "cache_valid h'"
      using 1(3) bs 1(2) rel' unfolding cache_valid_def by (auto simp: h'_def)
    have pa': "p_ancestor (h' self) = Some b" by (simp add: h'_def)
    from 1(1)[OF up rel' cv' pa' bs]
    obtain r where r:
      "ancestor_loop h' self = Some (Inr (r, h'(self := (h' self)\<lparr>p_ancestor := Some r\<rparr>)))"
      "parent (h' r) = None" "(r, self) \<in> R\<^sup>+" by blast
    have "h'(self := (h' self)\<lparr>p_ancestor := Some r\<rparr>) = h(self := (h self)\<lparr>p_ancestor := Some r\<rparr>)"
      by (simp add: h'_def)
    moreover have "parent (h r) = None" using r(2) unfolding h'_def parent_cache_upd .
    ultimately show ?thesis using r step by auto
  qed
qed

lemma ancestor_result:
  assumes "forest h" "cache_valid h" "parent (h x) \<noteq> None"
  shows "\<exists>r. ancestor h x = Some (Inr (r, h(x := (h x)\<lparr>p_ancestor := Some r\<rparr>)))
            \<and> parent (h r) = None \<and> (r, x) \<in> (parent_rel h)\<^sup>+"
proof -
  from assms(3) obtain p where p: "parent (h x) = Some p" by auto
  then have px: "(p, x) \<in> parent_rel h" by (simp add: parent_rel_def)
  define h1 where
    "h1 = (case p_ancestor (h x) of None \<Rightarrow> h(x := (h x)\<lparr>p_ancestor := Some p\<rparr>) | Some a \<Rightarrow> h)"
  define a where "a = (case p_ancestor (h x) of None \<Rightarrow> p | Some a \<Rightarrow> a)"
  have an: "ancestor h x = ancestor_loop h1 x" using p by (simp add: ancestor_def h1_def)
  have pa: "p_ancestor (h1 x) = Some a" by (simp add: h1_def a_def split: option.splits)
  have ax: "(a, x) \<in> (parent_rel h)\<^sup>+"
    using px assms(2) by (auto simp: a_def cache_valid_def split: option.splits)
  have rel: "parent_rel h1 = parent_rel h" by (simp add: h1_def split: option.splits)
  have cv: "cache_valid h1"
    using assms(2) px rel unfolding cache_valid_def by (auto simp: h1_def split: option.splits)
  from ancestor_loop_result[OF forest_wf[OF assms(1)] rel cv pa ax]
  obtain r where r:
    "ancestor_loop h1 x = Some (Inr (r, h1(x := (h1 x)\<lparr>p_ancestor := Some r\<rparr>)))"
    "parent (h1 r) = None" "(r, x) \<in> (parent_rel h)\<^sup>+" by blast
  have "h1(x := (h1 x)\<lparr>p_ancestor := Some r\<rparr>) = h(x := (h x)\<lparr>p_ancestor := Some r\<rparr>)"
    by (simp add: h1_def split: option.splits)
  moreover have "parent (h r) = None"
    using r(2)
    by (cases "p_ancestor (h x)") (simp_all add: h1_def parent_cache_upd del: fun_upd_apply)
  ultimately show ?thesis using r an by auto
qed

lemma ancestor_root: "parent (h x) = None \<Longrightarrow> ancestor h x = Some (Inr (x, h))"
  by (simp add: ancestor_def)

lemma cache_valid_upd:
  "cache_valid h \<Longrightarrow> (r, x) \<in> (parent_rel h)\<^sup>+
     \<Longrightarrow> cache_valid (h(x := (h x)\<lparr>p_ancestor := Some r\<rparr>))"
  unfolding cache_valid_def by auto

lemma forest_upd: "forest h \<Longrightarrow> forest (h(x := (h x)\<lparr>p_ancestor := c\<rparr>))"
  unfolding forest_def parent_rel_cache parent_cache_upd .

text \<open>
  The constructor keeps both hypotheses of the theorems below. The empty heap is a forest
  with valid caches, and a constructor call on a forest with valid caches leaves one,
  when the new object is fresh (it has no parent and is nobody's parent or child) and
  the children it is given are roots.
\<close>

lemma init_parent:
  assumes "init h self px chs i = Inr h'" "self \<notin> set chs"
  shows "parent (h' n) =
         (if n \<in> set chs then Some self else if n = self then None else parent (h n))"
  using assms
  by (cases px)
     (auto simp: init_def Let_def init_caches_def set_parents_parent new_object_def
           split: sum.splits)

lemma set_parents_cache: "p_ancestor (set_parents self chs h x) = p_ancestor (h x)"
  by (induction chs arbitrary: h) auto

lemma init_cache:
  assumes "init h self px chs i = Inr h'"
  shows "p_ancestor (h' n) = (if n = self then None else p_ancestor (h n))"
  using assms
  by (cases px)
     (auto simp: init_def Let_def init_caches_def set_parents_cache new_object_def
           split: sum.splits)

lemma forest_empty: "forest empty_heap \<and> cache_valid empty_heap"
  by (simp add: forest_def cache_valid_def parent_rel_def empty_heap_def new_object_def
        acyclic_def)

lemma init_keeps_forest:
  assumes fo: "forest h" and cv: "cache_valid h"
    and fresh: "parent (h self) = None" "\<forall>n. parent (h n) \<noteq> Some self" "self \<notin> set chs"
    and roots: "\<forall>c \<in> set chs. parent (h c) = None"
    and run: "init h self px chs i = Inr h'"
  shows "forest h' \<and> cache_valid h'"
proof -
  let ?S = "{self} \<times> set chs"
  have rel: "parent_rel h' = ?S \<union> parent_rel h"
    using fresh roots
    by (auto simp: parent_rel_def init_parent[OF run fresh(3)] split: if_splits)
  have "?S O ?S = {}" using fresh(3) by auto
  then have wfS: "wf ?S" by (rule wf_no_loop)
  have "Domain ?S \<inter> Range (parent_rel h) = {}"
    using fresh(1) by (auto simp: parent_rel_def)
  then have "wf (?S \<union> parent_rel h)" using wfS forest_wf[OF fo] by (simp add: wf_Un)
  then have ac: "acyclic (parent_rel h')" unfolding rel by (rule wf_acyclic)
  have "{n. parent (h' n) \<noteq> None} \<subseteq> {n. parent (h n) \<noteq> None} \<union> set chs"
    by (auto simp: init_parent[OF run fresh(3)] split: if_splits)
  then have fin: "finite {n. parent (h' n) \<noteq> None}"
    using fo by (auto simp: forest_def intro: finite_subset)
  have "cache_valid h'"
    unfolding cache_valid_def
  proof (intro allI impI)
    fix n a
    assume "p_ancestor (h' n) = Some a"
    then have "p_ancestor (h n) = Some a" by (auto simp: init_cache[OF run] split: if_splits)
    then have "(a, n) \<in> (parent_rel h)\<^sup>+" using cv by (simp add: cache_valid_def)
    then show "(a, n) \<in> (parent_rel h')\<^sup>+" unfolding rel by (rule trancl_mono) simp
  qed
  then show ?thesis using fin ac by (simp add: forest_def)
qed

lemma forest_chain: "forest chain"
proof -
  have "{n. parent (chain n) \<noteq> None} \<subseteq> {0, 1, 2}"
    by (auto simp: scenario_defs split: if_splits)
  then have fin: "finite {n. parent (chain n) \<noteq> None}" by (rule finite_subset) simp
  have "parent_rel chain \<subseteq> measure (\<lambda>n. 4 - n)"
    by (auto simp: parent_rel_def scenario_defs split: if_splits)
  then have "wf (parent_rel chain)" by (rule wf_subset[OF wf_measure])
  then show ?thesis using fin by (simp add: forest_def wf_acyclic)
qed

lemma cache_valid_chain: "cache_valid chain"
  by (simp add: cache_valid_def scenario_defs)

text \<open>The first \<^verbatim>\<open>ancestor\<close> query from the leaf \<^verbatim>\<open>C\<close> of the chain, evaluated.\<close>

lemma ancestor_chain_value: "ancestor chain 0 = Some (Inr (3, chain_compressed))"
  by (simp add: ancestor_def ancestor_loop.simps chain_compressed_def scenario_defs)

text \<open>
  C3. In a forest (with the cached ancestors valid, as the method itself leaves them),
  \<^verbatim>\<open>ancestor\<close> of \<open>x\<close> returns an object \<open>r\<close> that is reached from \<open>x\<close> along \<^verbatim>\<open>parent\<close>
  links of the given heap and has no parent there; the query changes no \<^verbatim>\<open>parent\<close> link,
  so \<open>r\<close> has no parent afterwards either, and \<^verbatim>\<open>ancestor\<close> of \<open>r\<close>, asked next, is \<open>r\<close>
  again; for an object with no parent it returns the object itself. The heap it leaves
  is again a forest with valid caches, and differs from the given one in the
  \<^verbatim>\<open>_ancestor\<close> of \<open>x\<close> at most.
\<close>

theorem ancestor_idempotent:
  assumes "forest h" "cache_valid h"
  shows "\<exists>r h'. ancestor h x = Some (Inr (r, h'))
            \<and> parent (h r) = None
            \<and> (r, x) \<in> (parent_rel h)\<^sup>*
            \<and> h' = (if parent (h x) = None then h else h(x := (h x)\<lparr>p_ancestor := Some r\<rparr>))
            \<and> (\<forall>m. parent (h' m) = parent (h m))
            \<and> parent (h' r) = None
            \<and> ancestor h' r = Some (Inr (r, h'))
            \<and> (parent (h x) = None \<longrightarrow> r = x)
            \<and> forest h' \<and> cache_valid h'"
proof (cases "parent (h x)")
  case None
  then show ?thesis using assms by (auto simp: ancestor_root)
next
  case (Some p)
  then obtain r where r: "ancestor h x = Some (Inr (r, h(x := (h x)\<lparr>p_ancestor := Some r\<rparr>)))"
      "parent (h r) = None" "(r, x) \<in> (parent_rel h)\<^sup>+"
    using ancestor_result[OF assms, of x] by auto
  let ?h' = "h(x := (h x)\<lparr>p_ancestor := Some r\<rparr>)"
  have same: "\<forall>m. parent (?h' m) = parent (h m)" unfolding parent_cache_upd by simp
  then have root': "parent (?h' r) = None" using r(2) by simp
  have "(r, x) \<in> (parent_rel h)\<^sup>*" using r(3) by (rule trancl_into_rtrancl)
  moreover have "ancestor ?h' r = Some (Inr (r, ?h'))" using root' by (rule ancestor_root)
  moreover have "parent (h x) = None \<longrightarrow> r = x" using Some by simp
  moreover have "?h' = (if parent (h x) = None then h else ?h')" using Some by simp
  ultimately show ?thesis
    using r(1,2) same root' cache_valid_upd[OF assms(2) r(3)] forest_upd[OF assms(1), of x "Some r"]
    by (intro exI[of _ r] exI[of _ "?h'"] conjI)
qed

theorem ancestor_idempotent_witness:
  "forest chain \<and> cache_valid chain
   \<and> ancestor chain 0 = Some (Inr (3, chain_compressed))
   \<and> parent (chain 3) = None
   \<and> (3, 0) \<in> (parent_rel chain)\<^sup>*
   \<and> parent (chain_compressed 3) = None
   \<and> ancestor chain_compressed 3 = Some (Inr (3, chain_compressed))"
proof -
  from ancestor_idempotent[OF forest_chain cache_valid_chain, of 0]
  obtain r h' where w: "ancestor chain 0 = Some (Inr (r, h'))" "parent (chain r) = None"
    "(r, 0) \<in> (parent_rel chain)\<^sup>*" "parent (h' r) = None"
    "ancestor h' r = Some (Inr (r, h'))"
    by blast
  from w(1) have "r = 3" "h' = chain_compressed" by (simp_all add: ancestor_chain_value)
  then show ?thesis using w forest_chain cache_valid_chain by simp
qed

text \<open>
  C9, as the code has it. An \<^verbatim>\<open>ancestor\<close> query from an object that has a parent walks to
  the root of its tree (an object without a parent, above the queried one), returns it,
  and stores it in the \<^verbatim>\<open>_ancestor\<close> of the queried object only: the heap after the query
  is the heap before it with that one attribute set to the root returned. No other
  object's cache is written. A query from an object without a parent returns the object
  and writes nothing.
\<close>

theorem ancestor_caches_self_only:
  assumes "forest h" "cache_valid h"
  shows "\<exists>r. ancestor h x =
             Some (Inr (r, if parent (h x) = None then h
                           else h(x := (h x)\<lparr>p_ancestor := Some r\<rparr>)))
           \<and> parent (h r) = None
           \<and> (r, x) \<in> (parent_rel h)\<^sup>*
           \<and> (parent (h x) = None \<longrightarrow> r = x)
           \<and> (parent (h x) \<noteq> None \<longrightarrow> (r, x) \<in> (parent_rel h)\<^sup>+)"
proof (cases "parent (h x)")
  case None
  then show ?thesis by (auto simp: ancestor_root)
next
  case (Some p)
  then obtain r where r: "ancestor h x = Some (Inr (r, h(x := (h x)\<lparr>p_ancestor := Some r\<rparr>)))"
      "parent (h r) = None" "(r, x) \<in> (parent_rel h)\<^sup>+"
    using ancestor_result[OF assms, of x] by auto
  have "(r, x) \<in> (parent_rel h)\<^sup>*" using r(3) by (rule trancl_into_rtrancl)
  then show ?thesis using r Some by auto
qed

theorem ancestor_caches_self_only_witness:
  "forest chain \<and> cache_valid chain
   \<and> parent (chain 0) = Some 1
   \<and> ancestor chain 0 = Some (Inr (3, chain(0 := (chain 0)\<lparr>p_ancestor := Some 3\<rparr>)))
   \<and> parent (chain 3) = None
   \<and> (3, 0) \<in> (parent_rel chain)\<^sup>+"
proof -
  have p0: "parent (chain 0) = Some 1" by (simp add: scenario_defs)
  from ancestor_caches_self_only[OF forest_chain cache_valid_chain, of 0]
  obtain r where w:
    "ancestor chain 0 =
       Some (Inr (r, if parent (chain 0) = None then chain
                     else chain(0 := (chain 0)\<lparr>p_ancestor := Some r\<rparr>)))"
    "parent (chain r) = None"
    "parent (chain 0) \<noteq> None \<longrightarrow> (r, 0) \<in> (parent_rel chain)\<^sup>+"
    by blast
  from w(1) have "r = 3" by (simp add: ancestor_chain_value)
  then show ?thesis using w p0 forest_chain cache_valid_chain by simp
qed

text \<open>
  C9 as stated fails: on the chain, the first \<^verbatim>\<open>ancestor\<close> query from \<^verbatim>\<open>C\<close> returns the root
  and leaves the \<^verbatim>\<open>_ancestor\<close> of the objects it walked through, \<^verbatim>\<open>B\<close> and \<^verbatim>\<open>A\<close>, unset.
\<close>

theorem ancestor_chain_counterexample:
  "ancestor chain 0 = Some (Inr (3, chain_compressed))
   \<and> p_ancestor (chain_compressed 1) = None
   \<and> p_ancestor (chain_compressed 2) = None"
  by (simp add: ancestor_def ancestor_loop.simps chain_compressed_def scenario_defs)

section \<open>Level\<close>

lemma at_depth_unique: "at_depth h n k \<Longrightarrow> at_depth h n j \<Longrightarrow> k = j"
proof (induction k arbitrary: n j)
  case 0
  then show ?case by (cases j) auto
next
  case (Suc k)
  then show ?case by (cases j) (auto split: option.splits)
qed

lemma at_depth_level_upd [simp]:
  "at_depth (\<lambda>m. (h m)\<lparr>p_level := c m\<rparr>) n k = at_depth h n k"
  by (induction k arbitrary: n) (auto split: option.splits)

text \<open>
  The loop, started at an object \<open>ob\<close> of depth \<open>j\<close> below which or at which a level is
  cached: it stops at the first cached level \<open>l\<close> on the way up, having counted the
  steps, so that \<open>l + d\<close> is the depth of \<open>ob\<close> plus the count it started with.
\<close>

lemma level_loop_result:
  "at_depth h ob j \<Longrightarrow> resolvable h ob j \<Longrightarrow> levels_consistent h
     \<Longrightarrow> \<exists>l d. level_loop h (Some ob) diff = Some (Inr (l, d)) \<and> l + d = int j + diff"
proof (induction j arbitrary: ob diff)
  case 0
  then obtain l where l: "p_level (h ob) = Some l" by auto
  then have "l = 0" using 0 unfolding levels_consistent_def by (metis int_ops(1))
  then show ?case using l by (subst level_loop.simps) simp
next
  case (Suc j)
  show ?case
  proof (cases "p_level (h ob)")
    case (Some l)
    then have "l = int (Suc j)" using Suc(2,4) unfolding levels_consistent_def by blast
    then show ?thesis using Some by (subst level_loop.simps) simp
  next
    case None
    from Suc(2) obtain p where p: "parent (h ob) = Some p" "at_depth h p j"
      by (auto split: option.splits)
    then have "resolvable h p j" using Suc(3) None by simp
    from Suc(1)[OF p(2) this Suc(4), of "diff + 1"]
    obtain l d where
      "level_loop h (Some p) (diff + 1) = Some (Inr (l, d))" "l + d = int j + (diff + 1)"
      by blast
    then show ?thesis using None p by (subst level_loop.simps) simp
  qed
qed

lemma level_effect:
  assumes "at_depth h n k" "levels_consistent h" "k = 0 \<or> resolvable h n k"
  shows "level h n = Some (Inr (int k, level_cached h n k))"
proof (cases "p_level (h n)")
  case (Some l)
  then have "l = int k" using assms unfolding levels_consistent_def by blast
  then show ?thesis using Some by (auto simp: level_def level_cached_def fun_eq_iff)
next
  case None
  show ?thesis
  proof (cases "parent (h n)")
    case pn: None
    then have "k = 0" using assms(1) by (cases k) auto
    then show ?thesis using None pn by (auto simp: level_def level_cached_def fun_eq_iff)
  next
    case (Some p)
    then obtain k' where k': "k = Suc k'" "at_depth h p k'" using assms(1) by (cases k) auto
    have np: "p \<noteq> n"
    proof
      assume "p = n"
      then have "at_depth h n k'" using k'(2) by simp
      from at_depth_unique[OF assms(1) this] show False using k'(1) by simp
    qed
    show ?thesis
    proof (cases "p_level (h p)")
      case pl: (Some l)
      then have "l = int k'" using k' assms(2) unfolding levels_consistent_def by blast
      then show ?thesis
        using None Some pl k' np by (auto simp: level_def level_cached_def fun_eq_iff)
    next
      case pl: None
      have "resolvable h p k'" using assms(3) k' None Some by simp
      from level_loop_result[OF k'(2) this assms(2), of 1]
      obtain l d where "level_loop h (Some p) 1 = Some (Inr (l, d))" "l + d = int k' + 1" by blast
      then show ?thesis
        using None Some pl k' np by (auto simp: level_def level_cached_def fun_eq_iff Let_def)
    qed
  qed
qed

lemma level_cached_consistent:
  assumes "at_depth h n k" "levels_consistent h"
  shows "levels_consistent (level_cached h n k)"
  unfolding levels_consistent_def
proof (intro allI impI)
  fix m l j
  assume c: "p_level (level_cached h n k m) = Some l" and d: "at_depth (level_cached h n k) m j"
  have dj: "at_depth h m j" using d unfolding level_cached_def by simp
  show "l = int j"
  proof (cases "m = n")
    case True
    then show ?thesis using c at_depth_unique[OF assms(1)] dj unfolding level_cached_def by auto
  next
    case False
    show ?thesis
    proof (cases "p_level (h n) = None \<and> parent (h n) = Some m")
      case True
      then have "at_depth h n (Suc j)" using dj by simp
      from at_depth_unique[OF assms(1) this] show ?thesis
        using c True False unfolding level_cached_def by auto
    next
      case no: False
      then have "p_level (h m) = Some l" using c False unfolding level_cached_def by auto
      then show ?thesis using assms(2) dj unfolding levels_consistent_def by blast
    qed
  qed
qed

lemma levels_consistent_chain_rooted: "levels_consistent chain_rooted"
  unfolding levels_consistent_def
proof (intro allI impI)
  fix n l k
  assume "p_level (chain_rooted n) = Some l" "at_depth chain_rooted n k"
  then show "l = int k"
    by (cases k) (auto simp: chain_rooted_def scenario_defs split: if_splits)
qed

lemma chain_rooted_level: "level chain 3 = Some (Inr (0, chain_rooted))"
  by (simp add: level_def chain_rooted_def scenario_defs)

lemma merged_rooted_level: "level merged 2 = Some (Inr (0, merged_rooted))"
  by (simp add: level_def merged_rooted_def scenario_defs)

text \<open>
  C4, as the code has it. Let \<open>n\<close> be \<open>k\<close> parent links below a root, let every cached
  level be the depth of its node, and let \<open>n\<close> be a root or have a cached level on itself
  or on one of its ancestors. Then \<^verbatim>\<open>level\<close> returns \<open>k\<close>: 0 for a root, one more than for
  the parent otherwise. It caches \<open>k\<close> on \<open>n\<close> and, when \<open>n\<close> had no cached level, \<open>k - 1\<close>
  on the direct parent of \<open>n\<close>; every other object, the further nodes of the walked chain
  included, is left as it was. The cached levels stay the depths of their nodes.
\<close>

theorem level_backfills_parent_only:
  assumes "at_depth h n k" "levels_consistent h" "k = 0 \<or> resolvable h n k"
  shows "\<exists>h'. level h n = Some (Inr (int k, h'))
           \<and> p_level (h' n) = Some (int k)
           \<and> (\<forall>p. p_level (h n) = None \<and> parent (h n) = Some p
                  \<longrightarrow> h' p = (h p)\<lparr>p_level := Some (int k - 1)\<rparr>)
           \<and> (\<forall>m. m \<noteq> n \<and> \<not> (p_level (h n) = None \<and> parent (h n) = Some m) \<longrightarrow> h' m = h m)
           \<and> h' n = (h n)\<lparr>p_level := Some (int k)\<rparr>
           \<and> levels_consistent h'"
proof -
  have "parent (h n) \<noteq> Some n"
  proof
    assume "parent (h n) = Some n"
    then have "at_depth h n (Suc k)" using assms(1) by simp
    from at_depth_unique[OF assms(1) this] show False by simp
  qed
  then show ?thesis
    using level_effect[OF assms] level_cached_consistent[OF assms(1,2)]
    by (auto simp: level_cached_def)
qed

theorem level_backfills_parent_only_witness:
  "at_depth chain_rooted 0 3 \<and> levels_consistent chain_rooted \<and> resolvable chain_rooted 0 3
   \<and> (\<exists>h'. level chain_rooted 0 = Some (Inr (3, h'))
          \<and> p_level (h' 0) = Some 3
          \<and> h' 1 = (chain_rooted 1)\<lparr>p_level := Some 2\<rparr>
          \<and> h' 2 = chain_rooted 2)"
proof -
  have d: "at_depth chain_rooted 0 3"
    by (simp add: eval_nat_numeral chain_rooted_def scenario_defs)
  have r: "resolvable chain_rooted 0 3"
    by (simp add: eval_nat_numeral chain_rooted_def scenario_defs)
  have "3 = (0::nat) \<or> resolvable chain_rooted 0 3" using r by simp
  from level_backfills_parent_only[OF d levels_consistent_chain_rooted this]
  obtain h' where h': "level chain_rooted 0 = Some (Inr (int 3, h'))"
    "p_level (h' 0) = Some (int 3)"
    "\<forall>p. p_level (chain_rooted 0) = None \<and> parent (chain_rooted 0) = Some p
         \<longrightarrow> h' p = (chain_rooted p)\<lparr>p_level := Some (int 3 - 1)\<rparr>"
    "\<forall>m. m \<noteq> 0 \<and> \<not> (p_level (chain_rooted 0) = None \<and> parent (chain_rooted 0) = Some m)
         \<longrightarrow> h' m = chain_rooted m"
    by blast
  have c0: "p_level (chain_rooted 0) = None \<and> parent (chain_rooted 0) = Some 1"
    by (simp add: chain_rooted_def scenario_defs)
  have "h' 1 = (chain_rooted 1)\<lparr>p_level := Some 2\<rparr>" using h'(3) c0 by simp
  moreover have "h' 2 = chain_rooted 2" using h'(4) c0 by simp
  ultimately show ?thesis using h'(1,2) d r levels_consistent_chain_rooted by auto
qed

text \<open>
  C4 as stated fails on the chain root, \<^verbatim>\<open>A\<close>, \<^verbatim>\<open>B\<close>, \<^verbatim>\<open>C\<close> (addresses 3, 2, 1, 0). Fresh from
  the constructor, \<^verbatim>\<open>C.level\<close> raises \<^verbatim>\<open>AttributeError\<close>: no level is cached on the way up.
  Once the root's level has been read, \<^verbatim>\<open>C.level\<close> is 3 and the cached level of \<^verbatim>\<open>B\<close> is 2,
  but that of \<^verbatim>\<open>A\<close> stays unset.
\<close>

theorem level_chain_counterexample:
  "level chain 0 = Some (Inl (AttributeError ''_level''))
   \<and> level chain_rooted 0 = Some (Inr (3, chain_levelled))
   \<and> p_level (chain_levelled 1) = Some 2
   \<and> p_level (chain_levelled 2) = None"
  by (simp add: level_def level_loop.simps chain_rooted_def chain_levelled_def scenario_defs Let_def)

section \<open>Footprint and peak\<close>

text \<open>
  C8 fails. \<^verbatim>\<open>fill_footprint\<close> stamps \<^verbatim>\<open>self.level\<close> on \<^verbatim>\<open>self.indices\<close>, the pixels of the
  whole subtree, after its children have stamped theirs. In the scenario, with the level
  of the root \<^verbatim>\<open>B\<close> cached and at least three nested calls allowed, the leaves first
  write their level 1 at (0,0) and (1,1), and \<^verbatim>\<open>B\<close> then writes its level 0 over both:
  the pixel (0,0), owned by \<^verbatim>\<open>L1\<close> of level 1, ends with 0. The call with
  \<^verbatim>\<open>recursive=False\<close> leaves the same array, against the docstring of that parameter.
\<close>

theorem fill_footprint_overwrites:
  "fill_footprint (Suc (Suc (Suc d))) merged_rooted arr 2 True =
     Some (Inr (merged_stamped, arr([0, 1] := 0, [0, 0] := 0, [1, 1] := 0)))
   \<and> fill_footprint (Suc (Suc (Suc d))) merged_rooted arr 2 False =
     Some (Inr (merged_rooted, arr([0, 1] := 0, [0, 0] := 0, [1, 1] := 0)))
   \<and> indices_self merged_stamped 0 = [[0, 0]]
   \<and> level merged_stamped 0 = Some (Inr (1, merged_stamped))"
  by (simp add: level_def indices_self_def merged_rooted_def merged_stamped_def scenario_defs)

text \<open>
  On an object without a cached \<^verbatim>\<open>_peak\<close>, as every object is after the constructor,
  \<^verbatim>\<open>get_peak\<close> evaluates \<^verbatim>\<open>self.values\<close> and so never returns.
\<close>

lemma get_peak_raises:
  "p_peak (h self) = None \<Longrightarrow> get_peak d h self subtree = Inl RecursionError"
  by (cases d)
     (auto simp: local_peak_def values_prop_raises split: sum.splits dest: indices_error)

text \<open>
  C6 fails: in the scenario the claim gives \<^verbatim>\<open>B.get_peak(subtree=True) == ((0,0), 5.0)\<close>,
  and \<^verbatim>\<open>((0,0), 5.0)\<close> for \<^verbatim>\<open>L1.get_peak()\<close>; both calls raise \<^verbatim>\<open>RecursionError\<close>.
\<close>

theorem get_peak_merged_raises:
  "get_peak d merged 2 True = Inl RecursionError \<and> get_peak d merged 0 False = Inl RecursionError"
  by (simp add: get_peak_raises scenario_defs)

end
